theory Spec2Isabelle
  imports Main
begin

section \<open>Data model of package keyboard (main.go)\<close>

text \<open>
  \<^verbatim>\<open>type EventType int\<close> with the constants \<open>Release = 0\<close>, \<open>Press = 1\<close>, \<open>Hold = 2\<close>
  (an \<open>iota\<close> block). Any other integer is a value of the type too; the code only
  ever compares event types for equality, so the width of Go's \<open>int\<close> plays no role.
\<close>

type_synonym EventType = int

definition Release :: EventType where
  "Release = 0"

definition Press :: EventType where
  "Press = 1"

definition Hold :: EventType where
  "Hold = 2"

text \<open>
  \<^verbatim>\<open>type Event struct { Key string; Type EventType }\<close>. A Go string is a sequence of
  bytes, as a HOL \<open>string\<close> is.
\<close>

record Event =
  Key :: string
  Type :: EventType

text \<open>
  \<^verbatim>\<open>type BindingCallback func()\<close>: a value of a Go function type is \<open>nil\<close> or a
  function; the functions themselves are opaque values of type \<open>'cb\<close>.
\<close>

datatype 'cb BindingCallback = NilFunc | Func 'cb

text \<open>
  \<^verbatim>\<open>type Manager struct\<close>: the three Go maps are partial functions from strings; the
  maps are the allocated (non-nil) ones that \<open>NewManager\<close> creates, and no method ever
  replaces them. \<open>RegisterBinding\<close> stores whatever callback it is given, \<open>nil\<close>
  included. The mutex is left out: the model runs one method call at a time.
\<close>

record 'cb Manager =
  bindings :: "string \<rightharpoonup> 'cb BindingCallback"
  pressed :: "string \<rightharpoonup> bool"
  fired :: "string \<rightharpoonup> bool"
  suppressRepeats :: bool

text \<open>
  The two ways in which the code of \<open>HandleEvent\<close> can fail by its syntax: an index
  out of range at \<^verbatim>\<open>parts[len(parts)-1]\<close> (line 184), and the \<^verbatim>\<open>go cb()\<close> of line
  210 on a \<open>nil\<close> callback, which the Go runtime answers with the fatal error
  \<^verbatim>\<open>go of nil func value\<close>: the process ends in the calling goroutine.
\<close>

datatype panic = IndexOutOfRange | GoOfNilFunc

section \<open>The functions of package strings that the code calls\<close>

text \<open>
  \<^verbatim>\<open>strings.Split(s, sep)\<close> for a separator of one byte (the code only splits at
  \<^verbatim>\<open>"+"\<close>): the pieces of \<open>s\<close> between the separators, in order; a string with no
  separator (the empty string too) gives the one-element slice holding the string.
\<close>

fun Split :: "string \<Rightarrow> char \<Rightarrow> string list" where
  "Split [] sep = [[]]"
| "Split (c # cs) sep =
     (if c = sep then [] # Split cs sep
      else (case Split cs sep of
              [] \<Rightarrow> [[c]]
            | t # ts \<Rightarrow> (c # t) # ts))"

text \<open>\<^verbatim>\<open>strings.Join(elems, sep)\<close>.\<close>

fun Join :: "string list \<Rightarrow> string \<Rightarrow> string" where
  "Join [] sep = []"
| "Join [x] sep = x"
| "Join (x # y # zs) sep = x @ sep @ Join (y # zs) sep"

text \<open>\<^verbatim>\<open>strings.TrimPrefix(s, prefix)\<close>: \<open>s\<close> without the leading \<open>prefix\<close> when it
  has it, \<open>s\<close> itself otherwise.\<close>

definition TrimPrefix :: "string \<Rightarrow> string \<Rightarrow> string" where
  "TrimPrefix s p = (if take (length p) s = p then drop (length p) s else s)"

text \<open>
  \<^verbatim>\<open>strings.ToUpper(s)\<close> on a string of ASCII bytes (every byte below \<open>0x80\<close>): the
  letters \<open>a\<close> to \<open>z\<close> move down by \<open>'a' - 'A' = 32\<close>, every other byte stays. On a
  string with a byte from \<open>0x80\<close> on, Go decodes UTF-8 and maps each rune through the
  Unicode tables, which are not modelled: every statement below that depends on
  \<open>ToUpper\<close> is made for ASCII strings (\<open>isASCII\<close>).
\<close>

definition upper_byte :: "char \<Rightarrow> char" where
  "upper_byte c =
     (let n = (of_char c :: nat)
      in if 97 \<le> n \<and> n \<le> 122 then char_of (n - 32) else c)"

definition ToUpper :: "string \<Rightarrow> string" where
  "ToUpper s = map upper_byte s"

definition isASCII :: "string \<Rightarrow> bool" where
  "isASCII s = list_all (\<lambda>c. (of_char c :: nat) < 128) s"

section \<open>Key names\<close>

text \<open>\<open>isModifier\<close>: the \<open>switch\<close> over the eight modifier key codes.\<close>

definition isModifier :: "string \<Rightarrow> bool" where
  "isModifier key =
     (key = ''KEY_LEFTCTRL'' \<or> key = ''KEY_RIGHTCTRL'' \<or>
      key = ''KEY_LEFTSHIFT'' \<or> key = ''KEY_RIGHTSHIFT'' \<or>
      key = ''KEY_LEFTALT'' \<or> key = ''KEY_RIGHTALT'' \<or>
      key = ''KEY_LEFTMETA'' \<or> key = ''KEY_RIGHTMETA'')"

definition modifierName :: "string \<Rightarrow> string" where
  "modifierName key =
     TrimPrefix (TrimPrefix (TrimPrefix key ''KEY_'') ''LEFT'') ''RIGHT''"

definition keyName :: "string \<Rightarrow> string" where
  "keyName key = TrimPrefix key ''KEY_''"

section \<open>The Manager's methods\<close>

definition NewManager :: "'cb Manager" where
  "NewManager =
     \<lparr>bindings = Map.empty, pressed = Map.empty, fired = Map.empty,
      suppressRepeats = False\<rparr>"

definition SuppressRepeats :: "'cb Manager \<Rightarrow> 'cb Manager" where
  "SuppressRepeats m = m\<lparr>suppressRepeats := True\<rparr>"

definition normalizeCombo :: "string \<Rightarrow> string" where
  "normalizeCombo c = (let parts = Split (ToUpper c) (CHR ''+'') in Join parts ''+'')"

definition RegisterBinding ::
  "'cb Manager \<Rightarrow> string \<Rightarrow> 'cb BindingCallback \<Rightarrow> 'cb Manager" where
  "RegisterBinding m combo cb =
     (let norm = normalizeCombo combo
      in m\<lparr>bindings := (bindings m)(norm \<mapsto> cb)\<rparr>)"

text \<open>
  Go leaves the order in which \<^verbatim>\<open>range\<close> yields the keys of a map unspecified, and
  the runtime varies it from one loop to the next. The model takes the order of each
  \<^verbatim>\<open>range\<close> loop as an argument, a list of keys; \<open>range_order mp ks\<close> says that the
  list is an order the runtime can choose for the map \<open>mp\<close>: every key once.
\<close>

definition range_order :: "(string \<rightharpoonup> 'v) \<Rightarrow> string list \<Rightarrow> bool" where
  "range_order mp ks = (distinct ks \<and> set ks = dom mp)"

text \<open>Reading a \<^verbatim>\<open>map[string]bool\<close> at a key: the stored value, \<open>false\<close> for a key
  the map does not hold.\<close>

definition index_bool :: "(string \<rightharpoonup> bool) \<Rightarrow> string \<Rightarrow> bool" where
  "index_bool mp k = (case mp k of None \<Rightarrow> False | Some b \<Rightarrow> b)"

text \<open>\<^verbatim>\<open>parts[len(parts)-1]\<close>: the last element, a panic on an empty slice.\<close>

definition index_last :: "string list \<Rightarrow> panic + string" where
  "index_last parts = (if parts = [] then Inl IndexOutOfRange else Inr (last parts))"

text \<open>
  The loop \<^verbatim>\<open>for combo := range m.fired\<close> of the Release branch (lines 182 to 187),
  over the keys in the order \<open>ks\<close>. The body deletes no entry but the one it is
  visiting, so the loop visits every key the map had when it started.
\<close>

fun purge_fired :: "string \<Rightarrow> string list \<Rightarrow> (string \<rightharpoonup> bool) \<Rightarrow> panic + (string \<rightharpoonup> bool)" where
  "purge_fired suffix [] f = Inr f"
| "purge_fired suffix (combo # ks) f =
     (case index_last (Split combo (CHR ''+'')) of
        Inl p \<Rightarrow> Inl p
      | Inr t \<Rightarrow> purge_fired suffix ks (if t = suffix then f(combo := None) else f))"

text \<open>
  The loop \<^verbatim>\<open>for k := range m.pressed\<close> (lines 194 to 198) over the keys in the order
  \<open>ks\<close>, followed by the \<open>append\<close> of the pressed key's name and the \<open>Join\<close>
  (lines 199 and 200).
\<close>

definition comboParts :: "string list \<Rightarrow> string \<Rightarrow> string list" where
  "comboParts ks key = map modifierName (filter isModifier ks) @ [keyName key]"

definition candidate :: "string list \<Rightarrow> string \<Rightarrow> string" where
  "candidate ks key = Join (comboParts ks key) ''+''"

text \<open>
  \<open>HandleEvent\<close>, lines 168 to 213, in its two parts. \<open>update_pressed\<close> is the
  update of the pressed keys (lines 175 to 189); \<open>fo\<close> is the order of its
  \<^verbatim>\<open>range m.fired\<close> loop.
\<close>

definition update_pressed :: "string list \<Rightarrow> 'cb Manager \<Rightarrow> Event \<Rightarrow> panic + 'cb Manager" where
  "update_pressed fo m ev =
     (let key = Key ev in
      if Type ev = Press then Inr (m\<lparr>pressed := (pressed m)(key \<mapsto> True)\<rparr>)
      else if Type ev = Release then
        (let m1 = m\<lparr>pressed := (pressed m)(key := None)\<rparr> in
         if suppressRepeats m1 then
           (case purge_fired (keyName key) fo (fired m1) of
              Inl p \<Rightarrow> Inl p
            | Inr f \<Rightarrow> Inr (m1\<lparr>fired := f\<rparr>))
         else Inr m1)
      else Inr m)"

text \<open>
  Lines 209 to 211, \<^verbatim>\<open>if cb, ok := m.bindings[combo]; ok { go cb() }\<close>, on the result
  \<open>b\<close> of the lookup: no entry starts nothing, a function is started in a goroutine
  of its own, and a \<open>nil\<close> entry is the fatal error.
\<close>

definition start_callback ::
  "'cb Manager \<Rightarrow> 'cb BindingCallback option \<Rightarrow> panic + ('cb Manager \<times> 'cb option)" where
  "start_callback m b =
     (case b of
        None \<Rightarrow> Inr (m, None)
      | Some NilFunc \<Rightarrow> Inl GoOfNilFunc
      | Some (Func f) \<Rightarrow> Inr (m, Some f))"

text \<open>
  \<open>fire\<close> is the second part (lines 191 to 212), run on the Manager that the first
  part leaves; \<open>po\<close> is the order of its \<^verbatim>\<open>range m.pressed\<close> loop. It gives the
  Manager after the call and the function started by \<^verbatim>\<open>go cb()\<close>, if any; the
  \<^verbatim>\<open>return\<close> of line 204 is the branch that gives \<open>Inr (m, None)\<close>.
\<close>

definition fire ::
  "string list \<Rightarrow> 'cb Manager \<Rightarrow> Event \<Rightarrow> panic + ('cb Manager \<times> 'cb option)" where
  "fire po m ev =
     (let key = Key ev; mod_key = isModifier key in
      if Type ev = Press \<and> \<not> mod_key then
        (let combo = candidate po key in
         if suppressRepeats m then
           (if index_bool (fired m) combo then Inr (m, None)
            else (let m2 = m\<lparr>fired := (fired m)(combo \<mapsto> True)\<rparr>
                  in start_callback m2 (bindings m2 combo)))
         else start_callback m (bindings m combo))
      else Inr (m, None))"

text \<open>The whole call: a failure, or the Manager after the call and the function
  started.\<close>

definition HandleEvent ::
  "string list \<Rightarrow> string list \<Rightarrow> 'cb Manager \<Rightarrow> Event \<Rightarrow> panic + ('cb Manager \<times> 'cb option)" where
  "HandleEvent fo po m ev =
     (case update_pressed fo m ev of
        Inl p \<Rightarrow> Inl p
      | Inr m1 \<Rightarrow> fire po m1 ev)"

text \<open>
  The loop of the README's usage example, \<^verbatim>\<open>for { ... mgr.HandleEvent(ev) }\<close>, over
  a finite run of events; each step carries the two \<^verbatim>\<open>range\<close> orders of its call.
  The result is the Manager at the end and the functions started, in order; a
  failure of one call ends the loop.
\<close>

fun event_loop ::
  "'cb Manager \<Rightarrow> (string list \<times> string list \<times> Event) list \<Rightarrow> panic + ('cb Manager \<times> 'cb list)" where
  "event_loop m [] = Inr (m, [])"
| "event_loop m ((fo, po, ev) # steps) =
     (case HandleEvent fo po m ev of
        Inl p \<Rightarrow> Inl p
      | Inr (m1, cb) \<Rightarrow>
          (case event_loop m1 steps of
             Inl p \<Rightarrow> Inl p
           | Inr (m2, cbs) \<Rightarrow> Inr (m2, (case cb of None \<Rightarrow> [] | Some c \<Rightarrow> [c]) @ cbs)))"

section \<open>Words of the specification\<close>

text \<open>
  The keys pressed but not subsequently released in a run of events, read off the
  run itself: the keys of those Press events that no later Release event of the
  same key follows.
\<close>

fun pressed_not_released :: "Event list \<Rightarrow> string set" where
  "pressed_not_released [] = {}"
| "pressed_not_released (ev # evs) =
     (if Type ev = Press \<and> \<not> list_ex (\<lambda>e. Type e = Release \<and> Key e = Key ev) evs
      then insert (Key ev) (pressed_not_released evs)
      else pressed_not_released evs)"

text \<open>
  The invariant of the fired combos: every combo in \<open>fired\<close> has, as its last
  \<open>+\<close>-separated part, the name (\<open>keyName\<close>) of a key that is in \<open>pressed\<close>;
  and, to make it inductive, \<open>fired\<close> is empty as long as suppression is off
  (nothing but line 206 ever writes to it, and no method switches suppression off).
\<close>

definition fired_inv :: "'cb Manager \<Rightarrow> bool" where
  "fired_inv m =
     ((\<not> suppressRepeats m \<longrightarrow> fired m = Map.empty) \<and>
      (\<forall>combo \<in> dom (fired m).
         \<exists>k \<in> dom (pressed m). keyName k = last (Split combo (CHR ''+''))))"

section \<open>Facts about the string functions\<close>

lemma Split_not_Nil: "Split s sep \<noteq> []"
  by (induction s) (auto split: list.splits)

lemma index_last_Split: "index_last (Split s sep) = Inr (last (Split s sep))"
  by (simp add: index_last_def Split_not_Nil)

lemma Split_append_sep: "Split (a @ sep # b) sep = Split a sep @ Split b sep"
  by (induction a) (auto split: list.splits simp: Split_not_Nil)

lemma Split_no_sep: "sep \<notin> set s \<Longrightarrow> Split s sep = [s]"
  by (induction s) auto

lemma Join_snoc: "Join (xs @ [t]) sep = (if xs = [] then t else Join xs sep @ sep @ t)"
  by (induction xs sep rule: Join.induct) auto

lemma last_Split_Join_snoc: "last (Split (Join (xs @ [t]) [sep]) sep) = last (Split t sep)"
  by (simp add: Join_snoc Split_append_sep Split_not_Nil)

lemma Join_Cons_Cons: "Join ((c # t) # ts) sep = c # Join (t # ts) sep"
  by (cases ts) simp_all

text \<open>Joining what was split gives the string back.\<close>

lemma Join_Split: "Join (Split s sep) [sep] = s"
proof (induction s)
  case Nil
  show ?case by simp
next
  case (Cons c cs)
  obtain t ts where sp: "Split cs sep = t # ts"
    using Split_not_Nil [of cs sep] by (cases "Split cs sep") auto
  have ih: "Join (t # ts) [sep] = cs"
    using Cons.IH by (simp only: sp)
  show ?case
  proof (cases "c = sep")
    case True
    then show ?thesis by (simp add: sp ih)
  next
    case False
    then show ?thesis by (simp add: sp Join_Cons_Cons ih)
  qed
qed

lemma set_TrimPrefix: "set (TrimPrefix s p) \<subseteq> set s"
  by (auto simp: TrimPrefix_def dest: in_set_dropD)

text \<open>The bytes of \<open>ToUpper\<close>, as numbers.\<close>

lemma of_char_upper:
  "(of_char (upper_byte c) :: nat) =
     (if 97 \<le> (of_char c :: nat) \<and> (of_char c :: nat) \<le> 122 then of_char c - 32 else of_char c)"
proof (cases "97 \<le> (of_char c :: nat) \<and> (of_char c :: nat) \<le> 122")
  case True
  then have "(of_char c :: nat) - 32 < 256" by arith
  then have "((of_char c :: nat) - 32) mod 256 = of_char c - 32" by (rule mod_less)
  with True show ?thesis by (simp add: upper_byte_def Let_def)
next
  case False
  then show ?thesis by (auto simp add: upper_byte_def Let_def)
qed

lemma upper_byte_idem: "upper_byte (upper_byte c) = upper_byte c"
proof -
  have "(of_char (upper_byte (upper_byte c)) :: nat) = of_char (upper_byte c)"
    unfolding of_char_upper [of "upper_byte c"] unfolding of_char_upper [of c]
    by (simp split: if_splits) arith
  then show ?thesis by (simp only: of_char_eq_iff)
qed

lemma upper_byte_ascii:
  "(of_char c :: nat) < 128 \<Longrightarrow> (of_char (upper_byte c) :: nat) < 128"
  unfolding of_char_upper by (simp split: if_splits) arith

lemma upper_byte_plus: "upper_byte c = CHR ''+'' \<longleftrightarrow> c = CHR ''+''"
proof
  assume "upper_byte c = CHR ''+''"
  then have "(of_char (upper_byte c) :: nat) = of_char (CHR ''+'')" by simp
  then have "(of_char c :: nat) = 43" unfolding of_char_upper by (simp split: if_splits)
  then have "(of_char c :: nat) = of_char (CHR ''+'')" by simp
  then show "c = CHR ''+''" by (simp only: of_char_eq_iff)
next
  assume "c = CHR ''+''"
  then show "upper_byte c = CHR ''+''" by (simp add: upper_byte_def)
qed

lemma ToUpper_idem: "ToUpper (ToUpper s) = ToUpper s"
  by (simp add: ToUpper_def upper_byte_idem)

lemma isASCII_ToUpper: "isASCII s \<Longrightarrow> isASCII (ToUpper s)"
  by (induction s) (simp_all add: isASCII_def ToUpper_def upper_byte_ascii)

text \<open>\<open>ToUpper\<close> neither makes nor removes a \<open>+\<close>: it maps the parts one by one.\<close>

lemma Split_ToUpper: "Split (ToUpper s) (CHR ''+'') = map ToUpper (Split s (CHR ''+''))"
proof (induction s)
  case Nil
  show ?case by (simp add: ToUpper_def)
next
  case (Cons c cs)
  obtain t ts where sp: "Split cs (CHR ''+'') = t # ts"
    using Split_not_Nil [of cs "CHR ''+''"] by (cases "Split cs (CHR ''+'')") auto
  with Cons show ?case by (auto simp: ToUpper_def upper_byte_plus)
qed

text \<open>So the split and join of \<open>normalizeCombo\<close> cancel: it is \<open>ToUpper\<close>.\<close>

lemma normalizeCombo_ToUpper: "normalizeCombo c = ToUpper c"
  using Join_Split [of "ToUpper c" "CHR ''+''"] by (simp add: normalizeCombo_def)

lemma normalize_CAT: "normalizeCombo ''CTRL+ALT+T'' = ''CTRL+ALT+T''"
  by (simp add: normalizeCombo_def ToUpper_def upper_byte_def)

text \<open>The last part of a candidate combo is the name of the pressed key, when the
  key's code has no \<open>+\<close> in it.\<close>

lemma last_Split_candidate:
  assumes "CHR ''+'' \<notin> set key"
  shows "last (Split (candidate po key) (CHR ''+'')) = keyName key"
proof -
  have "CHR ''+'' \<notin> set (keyName key)"
    using assms set_TrimPrefix [of key "''KEY_''"] by (auto simp: keyName_def)
  then have "Split (keyName key) (CHR ''+'') = [keyName key]"
    by (rule Split_no_sep)
  then show ?thesis
    by (simp add: candidate_def comboParts_def last_Split_Join_snoc)
qed

section \<open>The loop over the fired combos\<close>

text \<open>The loop never panics, and it removes exactly the visited combos whose last
  \<open>+\<close>-separated part is the suffix.\<close>

lemma purge_fired_result:
  "purge_fired suffix ks f =
     Inr (\<lambda>combo. if combo \<in> set ks \<and> last (Split combo (CHR ''+'')) = suffix
                   then None else f combo)"
proof (induction ks arbitrary: f)
  case Nil
  show ?case by simp
next
  case (Cons k ks)
  show ?case
    by (simp add: index_last_Split Cons.IH) (auto simp: fun_eq_iff)
qed

lemma update_pressed_total: "\<exists>m1. update_pressed fo m ev = Inr m1"
  by (simp add: update_pressed_def Let_def purge_fired_result)

lemma candidate_ctrl_t: "candidate [''KEY_LEFTCTRL'', ''KEY_T''] ''KEY_T'' = ''CTRL+T''"
  by (simp add: candidate_def comboParts_def isModifier_def modifierName_def keyName_def
      TrimPrefix_def)

section \<open>What a call leaves untouched, and when it returns\<close>

lemma update_pressed_frame:
  assumes "update_pressed fo m ev = Inr m1"
  shows "bindings m1 = bindings m" and "suppressRepeats m1 = suppressRepeats m"
    and "pressed m1 = (if Type ev = Press then (pressed m)(Key ev \<mapsto> True)
                       else if Type ev = Release then (pressed m)(Key ev := None)
                       else pressed m)"
  using assms
  by (auto simp: update_pressed_def Let_def purge_fired_result split: if_splits)

lemma start_callback_frame: "start_callback m b = Inr (m', cb) \<Longrightarrow> m' = m"
  by (auto simp: start_callback_def split: option.splits BindingCallback.splits)

lemma fire_frame:
  assumes "fire po m ev = Inr (m', cb)"
  shows "bindings m' = bindings m" and "pressed m' = pressed m"
    and "suppressRepeats m' = suppressRepeats m"
  using assms
  by (auto simp: fire_def Let_def split: if_splits dest!: start_callback_frame)

lemma start_callback_returns:
  "b \<noteq> Some NilFunc \<Longrightarrow> \<exists>cb. start_callback m b = Inr (m, cb)"
  by (auto simp: start_callback_def split: option.splits BindingCallback.splits)

lemma fire_returns:
  assumes "bindings m (candidate po (Key ev)) \<noteq> Some NilFunc"
  shows "\<exists>m' cb. fire po m ev = Inr (m', cb)"
proof (cases "Type ev = Press \<and> \<not> isModifier (Key ev)")
  case False
  then show ?thesis by (auto simp: fire_def Let_def)
next
  case True
  let ?combo = "candidate po (Key ev)"
  let ?m2 = "m\<lparr>fired := (fired m)(?combo \<mapsto> True)\<rparr>"
  obtain cb where "start_callback m (bindings m ?combo) = Inr (m, cb)"
    using assms start_callback_returns by blast
  moreover obtain cb2 where "start_callback ?m2 (bindings ?m2 ?combo) = Inr (?m2, cb2)"
    using assms start_callback_returns [of "bindings ?m2 ?combo" ?m2] by auto
  ultimately show ?thesis
    using True by (auto simp: fire_def Let_def)
qed


lemma HandleEvent_frame:
  assumes "HandleEvent fo po m ev = Inr (m', cb)"
  shows "bindings m' = bindings m" and "suppressRepeats m' = suppressRepeats m"
    and "pressed m' = (if Type ev = Press then (pressed m)(Key ev \<mapsto> True)
                       else if Type ev = Release then (pressed m)(Key ev := None)
                       else pressed m)"
proof -
  obtain m1 where u: "update_pressed fo m ev = Inr m1"
    using update_pressed_total by blast
  with assms have f: "fire po m1 ev = Inr (m', cb)"
    by (simp add: HandleEvent_def)
  show "bindings m' = bindings m"
    using fire_frame(1) [OF f] update_pressed_frame(1) [OF u] by simp
  show "suppressRepeats m' = suppressRepeats m"
    using fire_frame(3) [OF f] update_pressed_frame(2) [OF u] by simp
  show "pressed m' = (if Type ev = Press then (pressed m)(Key ev \<mapsto> True)
                       else if Type ev = Release then (pressed m)(Key ev := None)
                       else pressed m)"
    using fire_frame(2) [OF f] update_pressed_frame(3) [OF u] by simp
qed

lemma HandleEvent_returns:
  assumes "bindings m (candidate po (Key ev)) \<noteq> Some NilFunc"
  shows "\<exists>m' cb. HandleEvent fo po m ev = Inr (m', cb)"
proof -
  obtain m1 where u: "update_pressed fo m ev = Inr m1"
    using update_pressed_total by blast
  have "bindings m1 (candidate po (Key ev)) \<noteq> Some NilFunc"
    using assms update_pressed_frame(1) [OF u] by simp
  then obtain m' cb where "fire po m1 ev = Inr (m', cb)"
    using fire_returns by blast
  then show ?thesis by (simp add: HandleEvent_def u)
qed


section \<open>Single events\<close>

text \<open>
  C7. For every Manager state and every key, a Hold (auto-repeat) event leaves the
  whole Manager (pressed keys, fired combos, bindings and the suppression flag) as it
  was and starts no callback.
\<close>

theorem HandleEvent_Hold:
  "HandleEvent fo po m \<lparr>Key = k, Type = Hold\<rparr> = Inr (m, None)"
  by (simp add: HandleEvent_def update_pressed_def fire_def Hold_def Press_def Release_def)




text \<open>
  C10. With suppression on, a Press of a non-modifier key whose candidate combo is
  already marked in \<open>fired\<close> returns before the lookup of the callback (none is
  started, whatever is bound), and the Manager it leaves is the one before the call
  with the pressed key inserted into \<open>pressed\<close>.
\<close>

theorem suppressed_press_updates_pressed:
  assumes "Type ev = Press" and "\<not> isModifier (Key ev)" and "suppressRepeats m"
    and "index_bool (fired m) (candidate po (Key ev))"
  shows "HandleEvent fo po m ev = Inr (m\<lparr>pressed := (pressed m)(Key ev \<mapsto> True)\<rparr>, None)"
  using assms by (simp add: HandleEvent_def update_pressed_def fire_def Let_def)

theorem suppressed_press_updates_pressed_witness:
  "Type \<lparr>Key = ''KEY_T'', Type = Press\<rparr> = Press \<and>
   \<not> isModifier ''KEY_T'' \<and>
   candidate [''KEY_LEFTCTRL'', ''KEY_T''] ''KEY_T'' = ''CTRL+T'' \<and>
   HandleEvent [''CTRL+T''] [''KEY_LEFTCTRL'', ''KEY_T'']
     \<lparr>bindings = [''CTRL+T'' \<mapsto> Func (5::nat)],
      pressed = [''KEY_LEFTCTRL'' \<mapsto> True, ''KEY_T'' \<mapsto> True],
      fired = [''CTRL+T'' \<mapsto> True], suppressRepeats = True\<rparr>
     \<lparr>Key = ''KEY_T'', Type = Press\<rparr>
   = Inr (\<lparr>bindings = [''CTRL+T'' \<mapsto> Func 5],
           pressed = [''KEY_LEFTCTRL'' \<mapsto> True, ''KEY_T'' \<mapsto> True],
           fired = [''CTRL+T'' \<mapsto> True], suppressRepeats = True\<rparr>, None) \<and>
   \<not> isModifier ''T'' \<and>
   candidate [''KEY_LEFTCTRL'', ''KEY_T'', ''T''] ''T'' = ''CTRL+T'' \<and>
   HandleEvent [''CTRL+T''] [''KEY_LEFTCTRL'', ''KEY_T'', ''T'']
     \<lparr>bindings = [''CTRL+T'' \<mapsto> Func (5::nat)],
      pressed = [''KEY_LEFTCTRL'' \<mapsto> True, ''KEY_T'' \<mapsto> True],
      fired = [''CTRL+T'' \<mapsto> True], suppressRepeats = True\<rparr>
     \<lparr>Key = ''T'', Type = Press\<rparr>
   = Inr (\<lparr>bindings = [''CTRL+T'' \<mapsto> Func 5],
           pressed = [''KEY_LEFTCTRL'' \<mapsto> True, ''KEY_T'' \<mapsto> True, ''T'' \<mapsto> True],
           fired = [''CTRL+T'' \<mapsto> True], suppressRepeats = True\<rparr>, None)"
proof -
  have c: "candidate [''KEY_LEFTCTRL'', ''KEY_T'', ''T''] ''T'' = ''CTRL+T''"
    by (simp add: candidate_def comboParts_def isModifier_def modifierName_def keyName_def
        TrimPrefix_def)
  show ?thesis
    using suppressed_press_updates_pressed
      [of "\<lparr>Key = ''KEY_T'', Type = Press\<rparr>"
        "\<lparr>bindings = [''CTRL+T'' \<mapsto> Func (5::nat)],
          pressed = [''KEY_LEFTCTRL'' \<mapsto> True, ''KEY_T'' \<mapsto> True],
          fired = [''CTRL+T'' \<mapsto> True], suppressRepeats = True\<rparr>"
        "[''KEY_LEFTCTRL'', ''KEY_T'']" "[''CTRL+T'']"]
      suppressed_press_updates_pressed
      [of "\<lparr>Key = ''T'', Type = Press\<rparr>"
        "\<lparr>bindings = [''CTRL+T'' \<mapsto> Func (5::nat)],
          pressed = [''KEY_LEFTCTRL'' \<mapsto> True, ''KEY_T'' \<mapsto> True],
          fired = [''CTRL+T'' \<mapsto> True], suppressRepeats = True\<rparr>"
        "[''KEY_LEFTCTRL'', ''KEY_T'', ''T'']" "[''CTRL+T'']"]
    by (simp add: candidate_ctrl_t c isModifier_def index_bool_def)
qed

text \<open>
  C8. A Press of a non-modifier key whose candidate combo has no entry in
  \<open>bindings\<close> starts no callback and does not fail; it inserts the key into
  \<open>pressed\<close>; and with suppression on, the candidate combo is marked in \<open>fired\<close>
  after the call, bound or not. The same holds when the combo is bound to a
  function (only a \<open>nil\<close> callback ends the call before it returns a state), and
  nothing else in the Manager changes.
\<close>

theorem unregistered_press:
  assumes "Type ev = Press" and "\<not> isModifier (Key ev)"
    and "bindings m (candidate po (Key ev)) \<noteq> Some NilFunc"
  shows "\<exists>m' cb. HandleEvent fo po m ev = Inr (m', cb) \<and>
           pressed m' (Key ev) = Some True \<and>
           (bindings m (candidate po (Key ev)) = None \<longrightarrow> cb = None) \<and>
           (suppressRepeats m \<longrightarrow> fired m' (candidate po (Key ev)) = Some True) \<and>
           pressed m' = (pressed m)(Key ev \<mapsto> True) \<and>
           fired m' = (if suppressRepeats m then (fired m)(candidate po (Key ev) \<mapsto> True)
                       else fired m) \<and>
           bindings m' = bindings m \<and> suppressRepeats m' = suppressRepeats m"
proof -
  let ?combo = "candidate po (Key ev)"
  have marked: "fired m ?combo = Some True" if "index_bool (fired m) ?combo"
    using that by (auto simp: index_bool_def split: option.splits)
  have idem: "(fired m)(?combo \<mapsto> True) = fired m" if "index_bool (fired m) ?combo"
    using marked [OF that] by (auto simp: fun_eq_iff)
  show ?thesis
  proof (cases "bindings m ?combo")
    case None
    with assms idem marked show ?thesis
      by (auto simp add: HandleEvent_def update_pressed_def fire_def start_callback_def Let_def)
  next
    case (Some b)
    with assms(3) obtain f where "b = Func f" by (cases b) auto
    with Some assms idem marked show ?thesis
      by (auto simp add: HandleEvent_def update_pressed_def fire_def start_callback_def Let_def)
  qed
qed

theorem unregistered_press_witness:
  "Type \<lparr>Key = ''KEY_T'', Type = Press\<rparr> = Press \<and>
   \<not> isModifier ''KEY_T'' \<and>
   candidate [''KEY_LEFTCTRL'', ''KEY_T''] ''KEY_T'' = ''CTRL+T'' \<and>
   bindings (SuppressRepeats NewManager\<lparr>pressed := [''KEY_LEFTCTRL'' \<mapsto> True]\<rparr> :: nat Manager)
     ''CTRL+T'' = None \<and>
   suppressRepeats (SuppressRepeats NewManager\<lparr>pressed := [''KEY_LEFTCTRL'' \<mapsto> True]\<rparr> :: nat Manager) \<and>
   (\<exists>m'. HandleEvent [] [''KEY_LEFTCTRL'', ''KEY_T'']
            (SuppressRepeats NewManager\<lparr>pressed := [''KEY_LEFTCTRL'' \<mapsto> True]\<rparr> :: nat Manager)
            \<lparr>Key = ''KEY_T'', Type = Press\<rparr> = Inr (m', None) \<and>
         pressed m' ''KEY_T'' = Some True \<and> fired m' ''CTRL+T'' = Some True \<and>
         pressed m' = [''KEY_LEFTCTRL'' \<mapsto> True, ''KEY_T'' \<mapsto> True] \<and>
         fired m' = [''CTRL+T'' \<mapsto> True] \<and> bindings m' = Map.empty \<and> suppressRepeats m')"
  using unregistered_press
    [of "\<lparr>Key = ''KEY_T'', Type = Press\<rparr>"
        "SuppressRepeats NewManager\<lparr>pressed := [''KEY_LEFTCTRL'' \<mapsto> True]\<rparr> :: nat Manager"
        "[''KEY_LEFTCTRL'', ''KEY_T'']" "[]"]
  by (simp add: candidate_ctrl_t isModifier_def SuppressRepeats_def NewManager_def)

section \<open>Runs of events\<close>

text \<open>From any Manager, after a run that the loop completes: a key of the run's
  pressed-not-released set is pressed, a key whose last transition in the run is a
  Release is not, and a key the run never presses or releases is as it was.\<close>

lemma event_loop_pressed:
  assumes "event_loop m steps = Inr (m', cbs)"
  shows "pressed m' =
       (\<lambda>k. if k \<in> pressed_not_released (map (snd \<circ> snd) steps) then Some True
             else if list_ex (\<lambda>e. Type e = Release \<and> Key e = k) (map (snd \<circ> snd) steps)
             then None
             else pressed m k)"
  using assms
proof (induction steps arbitrary: m cbs)
  case Nil
  then show ?case by simp
next
  case (Cons step steps)
  obtain fo po ev where step: "step = (fo, po, ev)" by (cases step) auto
  from Cons.prems obtain m1 cb cbs1 where h: "HandleEvent fo po m ev = Inr (m1, cb)"
    and l: "event_loop m1 steps = Inr (m', cbs1)"
    by (auto simp: step split: sum.splits prod.splits)
  have p1: "pressed m1 = (if Type ev = Press then (pressed m)(Key ev \<mapsto> True)
                   else if Type ev = Release then (pressed m)(Key ev := None)
                   else pressed m)"
    using h by (rule HandleEvent_frame(3))
  have p': "pressed m' =
       (\<lambda>k. if k \<in> pressed_not_released (map (snd \<circ> snd) steps) then Some True
             else if list_ex (\<lambda>e. Type e = Release \<and> Key e = k) (map (snd \<circ> snd) steps)
             then None
             else pressed m1 k)"
    using l by (rule Cons.IH)
  have "pressed m' =
       (\<lambda>k. if k \<in> pressed_not_released (map (snd \<circ> snd) (step # steps)) then Some True
             else if list_ex (\<lambda>e. Type e = Release \<and> Key e = k) (map (snd \<circ> snd) (step # steps))
             then None
             else pressed m k)"
    unfolding p' p1 by (auto simp add: step fun_eq_iff Press_def Release_def list_ex_iff)
  then show ?case .
qed

text \<open>The loop completes when no \<open>nil\<close> callback is registered: no call changes
  the bindings.\<close>

lemma event_loop_returns:
  assumes "NilFunc \<notin> ran (bindings m)"
  shows "\<exists>m' cbs. event_loop m steps = Inr (m', cbs)"
  using assms
proof (induction steps arbitrary: m)
  case Nil
  show ?case by simp
next
  case (Cons step steps)
  obtain fo po ev where step: "step = (fo, po, ev)" by (cases step) auto
  have "bindings m (candidate po (Key ev)) \<noteq> Some NilFunc"
    using Cons.prems by (auto simp: ran_def)
  then obtain m1 cb where h: "HandleEvent fo po m ev = Inr (m1, cb)"
    using HandleEvent_returns by blast
  have "bindings m1 = bindings m"
    using h by (rule HandleEvent_frame(1))
  with Cons.prems have "NilFunc \<notin> ran (bindings m1)" by simp
  then obtain m' cbs where "event_loop m1 steps = Inr (m', cbs)"
    using Cons.IH by blast
  with h show ?case by (simp add: step)
qed

text \<open>Whether a key is in the pressed-not-released set of a run depends on the
  key's own events only, not on how they are interleaved with other keys' events.\<close>

lemma list_ex_filter_key:
  "list_ex (\<lambda>e. Type e = Release \<and> Key e = k) (filter (\<lambda>e. Key e = k) evs) =
   list_ex (\<lambda>e. Type e = Release \<and> Key e = k) evs"
  by (auto simp: list_ex_iff)

lemma pressed_not_released_own_events:
  "k \<in> pressed_not_released evs \<longleftrightarrow>
   k \<in> pressed_not_released (filter (\<lambda>e. Key e = k) evs)"
proof (induction evs)
  case Nil
  show ?case by simp
next
  case (Cons ev evs)
  show ?case
  proof (cases "Key ev = k")
    case True
    with Cons show ?thesis by (simp add: list_ex_filter_key)
  next
    case False
    with Cons show ?thesis by auto
  qed
qed

text \<open>
  C6. For every run of events, so for every run of Press and Release events with
  no Hold event among them, fed to a Manager with no key pressed, whatever its
  bindings, its fired combos and its suppression flag: the keys of \<open>pressed\<close>
  after the run are exactly the keys pressed but not subsequently released in the
  run, each mapped to \<open>true\<close>, and whether a key is among them depends on the key's
  own Press and Release events only, so the order in which distinct keys were
  pressed plays no role. The loop does complete the run when no \<open>nil\<close> callback
  is registered.
\<close>

theorem pressed_after_events:
  assumes "pressed m = Map.empty"
  shows "(NilFunc \<notin> ran (bindings m) \<longrightarrow> (\<exists>m' cbs. event_loop m steps = Inr (m', cbs))) \<and>
         (\<forall>m' cbs. event_loop m steps = Inr (m', cbs) \<longrightarrow>
            pressed m' =
              (\<lambda>k. if k \<in> pressed_not_released (map (snd \<circ> snd) steps) then Some True
                    else None) \<and>
            dom (pressed m') = pressed_not_released (map (snd \<circ> snd) steps) \<and>
            (\<forall>k. (k \<in> dom (pressed m')) =
                  (k \<in> pressed_not_released
                         (filter (\<lambda>e. Key e = k) (map (snd \<circ> snd) steps)))))"
proof (intro conjI allI impI)
  assume "NilFunc \<notin> ran (bindings m)"
  then show "\<exists>m' cbs. event_loop m steps = Inr (m', cbs)"
    by (rule event_loop_returns)
next
  fix m' cbs
  assume l: "event_loop m steps = Inr (m', cbs)"
  have p: "pressed m' =
       (\<lambda>k. if k \<in> pressed_not_released (map (snd \<circ> snd) steps) then Some True
             else if list_ex (\<lambda>e. Type e = Release \<and> Key e = k) (map (snd \<circ> snd) steps)
             then None
             else pressed m k)"
    using l by (rule event_loop_pressed)
  show q: "pressed m' =
       (\<lambda>k. if k \<in> pressed_not_released (map (snd \<circ> snd) steps) then Some True else None)"
    unfolding p by (simp add: assms fun_eq_iff)
  show d: "dom (pressed m') = pressed_not_released (map (snd \<circ> snd) steps)"
    unfolding q by (auto simp: dom_def)
  fix k
  show "(k \<in> dom (pressed m')) =
        (k \<in> pressed_not_released (filter (\<lambda>e. Key e = k) (map (snd \<circ> snd) steps)))"
    unfolding d by (rule pressed_not_released_own_events)
qed

lemma candidate_ctrl_a: "candidate [''KEY_A'', ''KEY_LEFTCTRL''] ''KEY_A'' = ''CTRL+A''"
  by (simp add: candidate_def comboParts_def isModifier_def modifierName_def keyName_def
      TrimPrefix_def)

lemma normalize_CT: "normalizeCombo ''CTRL+T'' = ''CTRL+T''"
  by (simp add: normalizeCombo_def ToUpper_def upper_byte_def)

theorem pressed_after_events_witness:
  "pressed (SuppressRepeats (RegisterBinding NewManager ''CTRL+T'' (Func (0::nat)))) = Map.empty \<and>
   NilFunc \<notin> ran (bindings (SuppressRepeats (RegisterBinding NewManager ''CTRL+T'' (Func (0::nat))))) \<and>
   event_loop (SuppressRepeats (RegisterBinding NewManager ''CTRL+T'' (Func (0::nat))))
     [([], [''KEY_LEFTCTRL''], \<lparr>Key = ''KEY_LEFTCTRL'', Type = Press\<rparr>),
      ([], [''KEY_LEFTCTRL'', ''KEY_T''], \<lparr>Key = ''KEY_T'', Type = Press\<rparr>),
      ([''CTRL+T''], [], \<lparr>Key = ''KEY_T'', Type = Release\<rparr>),
      ([], [''KEY_A'', ''KEY_LEFTCTRL''], \<lparr>Key = ''KEY_A'', Type = Press\<rparr>)]
   = Inr (\<lparr>bindings = [''CTRL+T'' \<mapsto> Func 0],
           pressed = [''KEY_LEFTCTRL'' \<mapsto> True, ''KEY_A'' \<mapsto> True],
           fired = [''CTRL+A'' \<mapsto> True], suppressRepeats = True\<rparr>, [0]) \<and>
   dom [''KEY_LEFTCTRL'' \<mapsto> True, ''KEY_A'' \<mapsto> True] =
     pressed_not_released
       [\<lparr>Key = ''KEY_LEFTCTRL'', Type = Press\<rparr>, \<lparr>Key = ''KEY_T'', Type = Press\<rparr>,
        \<lparr>Key = ''KEY_T'', Type = Release\<rparr>, \<lparr>Key = ''KEY_A'', Type = Press\<rparr>]"
proof -
  let ?m = "SuppressRepeats (RegisterBinding NewManager ''CTRL+T'' (Func (0::nat)))"
  let ?steps = "[([], [''KEY_LEFTCTRL''], \<lparr>Key = ''KEY_LEFTCTRL'', Type = Press\<rparr>),
      ([], [''KEY_LEFTCTRL'', ''KEY_T''], \<lparr>Key = ''KEY_T'', Type = Press\<rparr>),
      ([''CTRL+T''], [], \<lparr>Key = ''KEY_T'', Type = Release\<rparr>),
      ([], [''KEY_A'', ''KEY_LEFTCTRL''], \<lparr>Key = ''KEY_A'', Type = Press\<rparr>)]"
  let ?m' = "\<lparr>bindings = [''CTRL+T'' \<mapsto> Func (0::nat)],
           pressed = [''KEY_LEFTCTRL'' \<mapsto> True, ''KEY_A'' \<mapsto> True],
           fired = [''CTRL+A'' \<mapsto> True], suppressRepeats = True\<rparr>"
  have e: "pressed ?m = Map.empty"
    by (simp add: SuppressRepeats_def RegisterBinding_def NewManager_def)
  have n: "NilFunc \<notin> ran (bindings ?m)"
    by (simp add: SuppressRepeats_def RegisterBinding_def NewManager_def)
  have run: "event_loop ?m ?steps = Inr (?m', [0])"
    by (simp add: normalize_CT candidate_ctrl_t candidate_ctrl_a SuppressRepeats_def
        RegisterBinding_def NewManager_def HandleEvent_def update_pressed_def fire_def
        start_callback_def Press_def Release_def isModifier_def keyName_def TrimPrefix_def
        index_bool_def index_last_def Let_def)
  have "dom (pressed ?m') = pressed_not_released (map (snd \<circ> snd) ?steps)"
    using pressed_after_events [OF e, of ?steps] run by blast
  then have d: "dom [''KEY_LEFTCTRL'' \<mapsto> True, ''KEY_A'' \<mapsto> True] =
     pressed_not_released
       [\<lparr>Key = ''KEY_LEFTCTRL'', Type = Press\<rparr>, \<lparr>Key = ''KEY_T'', Type = Press\<rparr>,
        \<lparr>Key = ''KEY_T'', Type = Release\<rparr>, \<lparr>Key = ''KEY_A'', Type = Press\<rparr>]"
    by simp
  from e n run d show ?thesis by (intro conjI)
qed

section \<open>The invariant of the fired combos\<close>

lemma fired_inv_press:
  assumes inv: "fired_inv m" and ty: "Type ev = Press" and plus: "CHR ''+'' \<notin> set (Key ev)"
    and h: "HandleEvent fo po m ev = Inr (m', cb)"
  shows "fired_inv m'"
proof -
  let ?m1 = "m\<lparr>pressed := (pressed m)(Key ev \<mapsto> True)\<rparr>"
  have u: "update_pressed fo m ev = Inr ?m1"
    using ty by (simp add: update_pressed_def)
  have f: "fire po ?m1 ev = Inr (m', cb)"
    using h by (simp add: HandleEvent_def u)
  have i1: "fired_inv ?m1"
    using inv by (auto simp: fired_inv_def)
  have l: "last (Split (candidate po (Key ev)) (CHR ''+'')) = keyName (Key ev)"
    using plus by (rule last_Split_candidate)
  have i2: "fired_inv (?m1\<lparr>fired := (fired ?m1)(candidate po (Key ev) \<mapsto> True)\<rparr>)"
    if "suppressRepeats m"
    using i1 l that by (auto simp: fired_inv_def)
  from f consider "m' = ?m1"
    | "suppressRepeats m" and
      "m' = ?m1\<lparr>fired := (fired ?m1)(candidate po (Key ev) \<mapsto> True)\<rparr>"
    by (auto simp: fire_def Let_def split: if_splits dest!: start_callback_frame)
  then show ?thesis
    using i1 i2 by cases simp_all
qed

lemma fired_inv_release:
  assumes inv: "fired_inv m" and ty: "Type ev = Release" and ord: "range_order (fired m) fo"
  shows "\<exists>m'. HandleEvent fo po m ev = Inr (m', None) \<and> fired_inv m' \<and>
           pressed m' = (pressed m)(Key ev := None) \<and>
           fired m' = (\<lambda>combo. if last (Split combo (CHR ''+'')) = keyName (Key ev) then None
                               else fired m combo)"
proof -
  let ?f = "\<lambda>combo. if last (Split combo (CHR ''+'')) = keyName (Key ev) then None
                               else fired m combo"
  let ?m1 = "m\<lparr>pressed := (pressed m)(Key ev := None), fired := ?f\<rparr>"
  have np: "Type ev \<noteq> Press" using ty by (simp add: Release_def Press_def)
  have dom: "set fo = dom (fired m)" using ord by (simp add: range_order_def)
  have f: "(\<lambda>combo. if combo \<in> set fo \<and> last (Split combo (CHR ''+'')) = keyName (Key ev)
                     then None else fired m combo) = ?f"
    unfolding dom by (rule ext) (simp add: domIff)
  have u: "update_pressed fo m ev = Inr ?m1"
  proof (cases "suppressRepeats m")
    case True
    then show ?thesis
      using ty np by (simp add: update_pressed_def Let_def purge_fired_result f)
  next
    case False
    with inv have "fired m = Map.empty" by (simp add: fired_inv_def)
    then have "?f = fired m" by (simp add: fun_eq_iff)
    then have "?m1 = m\<lparr>pressed := (pressed m)(Key ev := None)\<rparr>" by simp
    then show ?thesis
      using ty np False by (simp add: update_pressed_def Let_def)
  qed
  have h: "HandleEvent fo po m ev = Inr (?m1, None)"
    using np by (simp add: HandleEvent_def u fire_def)
  have e: "\<not> suppressRepeats m \<longrightarrow> ?f = Map.empty"
    using inv by (simp add: fired_inv_def fun_eq_iff)
  have w: "\<exists>k \<in> dom ((pressed m)(Key ev := None)). keyName k = last (Split combo (CHR ''+''))"
    if c: "combo \<in> dom ?f" for combo
  proof -
    from c have ne: "last (Split combo (CHR ''+'')) \<noteq> keyName (Key ev)"
      and d: "combo \<in> dom (fired m)"
      by (simp_all add: domIff split: if_splits)
    from inv d obtain k where k: "k \<in> dom (pressed m)"
      and kn: "keyName k = last (Split combo (CHR ''+''))"
      unfolding fired_inv_def by blast
    from kn ne have "k \<noteq> Key ev" by auto
    with k have "k \<in> dom ((pressed m)(Key ev := None))" by simp
    with kn show ?thesis by blast
  qed
  have "fired_inv ?m1"
    unfolding fired_inv_def using e w by simp
  with h show ?thesis by simp
qed

text \<open>
  C5. The invariant holds of a new Manager and every method keeps it:
  \<open>SuppressRepeats\<close>, \<open>RegisterBinding\<close>, and \<open>HandleEvent\<close> for every event whose
  key is an evdev key code as the comment on \<open>Event.Key\<close> says it is (what is
  used of it: the code of a pressed key has no \<open>+\<close> in it). A Release deletes the
  key from \<open>pressed\<close>, removes from \<open>fired\<close> exactly the combos whose last part
  is the released key's name, whatever the modifiers in front, and leaves every
  other combo in place. The call returns a state unless it reaches \<^verbatim>\<open>go cb()\<close>
  with a \<open>nil\<close> callback.
\<close>

theorem fired_invariant:
  assumes "fired_inv m" and "range_order (fired m) fo"
    and "Type ev = Press \<longrightarrow> CHR ''+'' \<notin> set (Key ev)"
  shows "fired_inv (NewManager :: 'cb Manager) \<and>
         fired_inv (SuppressRepeats m) \<and>
         fired_inv (RegisterBinding m c cb) \<and>
         (\<forall>m' started. HandleEvent fo po m ev = Inr (m', started) \<longrightarrow> fired_inv m') \<and>
         (Type ev = Release \<longrightarrow>
            (\<exists>m'. HandleEvent fo po m ev = Inr (m', None) \<and>
               pressed m' = (pressed m)(Key ev := None) \<and>
               fired m' = (\<lambda>combo. if last (Split combo (CHR ''+'')) = keyName (Key ev)
                                     then None else fired m combo))) \<and>
         (bindings m (candidate po (Key ev)) \<noteq> Some NilFunc \<longrightarrow>
            (\<exists>m' started. HandleEvent fo po m ev = Inr (m', started)))"
proof (intro conjI)
  show "fired_inv (NewManager :: 'cb Manager)"
    by (simp add: fired_inv_def NewManager_def)
  show "fired_inv (SuppressRepeats m)"
    using assms(1) by (simp add: fired_inv_def SuppressRepeats_def)
  show "fired_inv (RegisterBinding m c cb)"
    using assms(1) by (simp add: fired_inv_def RegisterBinding_def)
  show "\<forall>m' started. HandleEvent fo po m ev = Inr (m', started) \<longrightarrow> fired_inv m'"
  proof (intro allI impI)
    fix m' started
    assume h: "HandleEvent fo po m ev = Inr (m', started)"
    show "fired_inv m'"
    proof (cases "Type ev = Press")
      case True
      with assms(3) have "CHR ''+'' \<notin> set (Key ev)" by simp
      then show ?thesis by (rule fired_inv_press [OF assms(1) True _ h])
    next
      case notPress: False
      show ?thesis
      proof (cases "Type ev = Release")
        case True
        with assms fired_inv_release [of m ev fo po] h show ?thesis by auto
      next
        case False
        with notPress have "HandleEvent fo po m ev = Inr (m, None)"
          by (simp add: HandleEvent_def update_pressed_def fire_def)
        with h assms(1) show ?thesis by simp
      qed
    qed
  qed
  show "Type ev = Release \<longrightarrow>
            (\<exists>m'. HandleEvent fo po m ev = Inr (m', None) \<and>
               pressed m' = (pressed m)(Key ev := None) \<and>
               fired m' = (\<lambda>combo. if last (Split combo (CHR ''+'')) = keyName (Key ev)
                                     then None else fired m combo))"
    using assms fired_inv_release [of m ev fo po] by blast
  show "bindings m (candidate po (Key ev)) \<noteq> Some NilFunc \<longrightarrow>
            (\<exists>m' started. HandleEvent fo po m ev = Inr (m', started))"
    using HandleEvent_returns [of m po ev fo] by blast
qed

theorem fired_invariant_witness:
  "fired_inv \<lparr>bindings = [''CTRL+T'' \<mapsto> Func (0::nat)],
              pressed = [''KEY_LEFTCTRL'' \<mapsto> True, ''KEY_T'' \<mapsto> True],
              fired = [''CTRL+T'' \<mapsto> True], suppressRepeats = True\<rparr> \<and>
   range_order [''CTRL+T'' \<mapsto> True] [''CTRL+T''] \<and>
   CHR ''+'' \<notin> set ''KEY_T'' \<and>
   (\<exists>m'. HandleEvent [''CTRL+T''] [''KEY_LEFTCTRL'']
        \<lparr>bindings = [''CTRL+T'' \<mapsto> Func (0::nat)],
              pressed = [''KEY_LEFTCTRL'' \<mapsto> True, ''KEY_T'' \<mapsto> True],
              fired = [''CTRL+T'' \<mapsto> True], suppressRepeats = True\<rparr>
        \<lparr>Key = ''KEY_T'', Type = Release\<rparr> = Inr (m', None) \<and> fired_inv m' \<and>
        pressed m' ''KEY_T'' = None \<and> fired m' ''CTRL+T'' = None) \<and>
   (\<exists>m' started. HandleEvent [''CTRL+T''] [''KEY_LEFTCTRL'', ''KEY_T'']
        \<lparr>bindings = [''CTRL+T'' \<mapsto> Func (0::nat)],
              pressed = [''KEY_LEFTCTRL'' \<mapsto> True, ''KEY_T'' \<mapsto> True],
              fired = [''CTRL+T'' \<mapsto> True], suppressRepeats = True\<rparr>
        \<lparr>Key = ''KEY_T'', Type = Press\<rparr> = Inr (m', started) \<and> fired_inv m')"
proof -
  let ?m = "\<lparr>bindings = [''CTRL+T'' \<mapsto> Func (0::nat)],
              pressed = [''KEY_LEFTCTRL'' \<mapsto> True, ''KEY_T'' \<mapsto> True],
              fired = [''CTRL+T'' \<mapsto> True], suppressRepeats = True\<rparr>"
  let ?rel = "\<lparr>Key = ''KEY_T'', Type = Release\<rparr>"
  let ?prs = "\<lparr>Key = ''KEY_T'', Type = Press\<rparr>"
  have i: "fired_inv ?m"
    by (simp add: fired_inv_def keyName_def TrimPrefix_def)
  have r: "range_order (fired ?m) [''CTRL+T'']"
    by (simp add: range_order_def)
  have k: "keyName ''KEY_T'' = ''T''"
    by (simp add: keyName_def TrimPrefix_def)
  have p1: "Type ?rel = Press \<longrightarrow> CHR ''+'' \<notin> set (Key ?rel)"
    by simp
  have p2: "Type ?prs = Press \<longrightarrow> CHR ''+'' \<notin> set (Key ?prs)"
    by simp
  have b: "bindings ?m (candidate [''KEY_LEFTCTRL'', ''KEY_T''] (Key ?prs)) \<noteq> Some NilFunc"
    by (simp add: candidate_ctrl_t)
  have t: "Type ?rel = Release" by simp
  note rel = fired_invariant [OF i r p1, of "''CTRL+T''" "Func 0" "[''KEY_LEFTCTRL'']"]
  note prs = fired_invariant [OF i r p2, of "''CTRL+T''" "Func 0" "[''KEY_LEFTCTRL'', ''KEY_T'']"]
  from rel t obtain m1 where h1: "HandleEvent [''CTRL+T''] [''KEY_LEFTCTRL''] ?m ?rel = Inr (m1, None)"
    and q1: "pressed m1 = (pressed ?m)(Key ?rel := None)"
    and f1: "fired m1 = (\<lambda>combo. if last (Split combo (CHR ''+'')) = keyName (Key ?rel)
                                     then None else fired ?m combo)"
    by blast
  from rel h1 have i1: "fired_inv m1" by blast
  have a1: "pressed m1 ''KEY_T'' = None" unfolding q1 by simp
  have a2: "fired m1 ''CTRL+T'' = None" unfolding f1 by (simp add: k)
  from prs b obtain m2 s2
    where h2: "HandleEvent [''CTRL+T''] [''KEY_LEFTCTRL'', ''KEY_T''] ?m ?prs = Inr (m2, s2)"
    by blast
  from prs h2 have i2: "fired_inv m2" by blast
  have c: "CHR ''+'' \<notin> set ''KEY_T''" by simp
  from i r c h1 i1 a1 a2 h2 i2 show ?thesis by auto
qed

text \<open>
  The hypothesis on the key code is needed. A string with a \<open>+\<close> in it, which is
  not the code of any key, is marked under a combo that its own Release does not
  find: the Release looks for combos whose last part is \<open>A+B\<close>, and the last part
  of the combo \<open>A+B\<close> is \<open>B\<close>.
\<close>

lemma plus_in_key_stays_fired:
  "event_loop (SuppressRepeats NewManager :: nat Manager)
     [([], [''KEY_A+B''], \<lparr>Key = ''KEY_A+B'', Type = Press\<rparr>),
      ([''A+B''], [], \<lparr>Key = ''KEY_A+B'', Type = Release\<rparr>)]
   = Inr (\<lparr>bindings = Map.empty, pressed = Map.empty, fired = [''A+B'' \<mapsto> True],
           suppressRepeats = True\<rparr>, [])"
  by (simp add: SuppressRepeats_def NewManager_def HandleEvent_def update_pressed_def fire_def
      start_callback_def Press_def Release_def isModifier_def candidate_def comboParts_def
      keyName_def TrimPrefix_def index_bool_def index_last_def)

section \<open>What RegisterBinding stores\<close>

text \<open>
  C2, as the code has it. For an ASCII specifier, the key that \<open>RegisterBinding\<close>
  stores the callback under is the specifier in upper case: its \<open>+\<close>-separated
  parts are the specifier's parts, each in upper case, in the order in which they
  were written. Nothing is stripped and nothing is moved.
\<close>

theorem RegisterBinding_key:
  assumes "isASCII combo"
  shows "\<exists>norm. bindings (RegisterBinding m combo cb) = (bindings m)(norm \<mapsto> cb) \<and>
           isASCII norm \<and>
           Split norm (CHR ''+'') = map ToUpper (Split combo (CHR ''+''))"
proof (intro exI conjI)
  show "bindings (RegisterBinding m combo cb) = (bindings m)(ToUpper combo \<mapsto> cb)"
    by (simp add: RegisterBinding_def normalizeCombo_ToUpper)
  show "isASCII (ToUpper combo)"
    using assms by (rule isASCII_ToUpper)
  show "Split (ToUpper combo) (CHR ''+'') = map ToUpper (Split combo (CHR ''+''))"
    by (rule Split_ToUpper)
qed

theorem RegisterBinding_key_witness:
  "isASCII ''t+LeftCtrl'' \<and>
   (\<exists>norm. bindings (RegisterBinding (NewManager :: nat Manager) ''t+LeftCtrl'' (Func 0))
              = (bindings (NewManager :: nat Manager))(norm \<mapsto> Func 0) \<and>
            isASCII norm \<and>
            Split norm (CHR ''+'') = [ToUpper ''t'', ToUpper ''LeftCtrl''])"
  using RegisterBinding_key [of "''t+LeftCtrl''" "NewManager :: nat Manager" "Func 0"]
  by (simp add: isASCII_def)

text \<open>
  C2 as stated fails: \<open>LeftCtrl+t\<close> is stored under \<open>LEFTCTRL+T\<close>, not under
  \<open>CTRL+T\<close>, and \<open>T+CTRL\<close> is stored under \<open>T+CTRL\<close>, the non-modifier part first.
\<close>

theorem RegisterBinding_key_counterexample:
  "bindings (RegisterBinding (NewManager :: nat Manager) ''LeftCtrl+t'' (Func 0)) ''CTRL+T'' = None \<and>
   bindings (RegisterBinding (NewManager :: nat Manager) ''LeftCtrl+t'' (Func 0)) ''LEFTCTRL+T'' = Some (Func 0) \<and>
   bindings (RegisterBinding (NewManager :: nat Manager) ''T+CTRL'' (Func 0)) ''CTRL+T'' = None \<and>
   bindings (RegisterBinding (NewManager :: nat Manager) ''T+CTRL'' (Func 0)) ''T+CTRL'' = Some (Func 0)"
  by (simp add: RegisterBinding_def NewManager_def normalizeCombo_def ToUpper_def upper_byte_def
      char_of_def bit_Suc_0_iff)

text \<open>
  C3, as the code has it. On ASCII specifiers \<open>normalizeCombo\<close> is idempotent (and
  its result is ASCII again, so the second call is a call on an ASCII string).
\<close>

theorem normalizeCombo_idem:
  assumes "isASCII x"
  shows "isASCII (normalizeCombo x) \<and> normalizeCombo (normalizeCombo x) = normalizeCombo x"
  using assms by (simp add: normalizeCombo_ToUpper ToUpper_idem isASCII_ToUpper)

theorem normalizeCombo_idem_witness:
  "isASCII ''Ctrl+alt+t'' \<and> normalizeCombo ''Ctrl+alt+t'' = ''CTRL+ALT+T'' \<and>
   normalizeCombo (normalizeCombo ''Ctrl+alt+t'') = ''CTRL+ALT+T''"
proof -
  have a: "isASCII ''Ctrl+alt+t''" by (simp add: isASCII_def)
  have n: "normalizeCombo ''Ctrl+alt+t'' = ''CTRL+ALT+T''"
    by (simp add: normalizeCombo_def ToUpper_def upper_byte_def char_of_def bit_Suc_0_iff)
  show ?thesis using a n normalizeCombo_idem [OF a] by simp
qed

text \<open>
  C3 as stated fails in its second half: the order of the parts is kept, so the
  spec's own two specifiers have different normal forms.
\<close>

theorem normalizeCombo_order_counterexample:
  "normalizeCombo ''CTRL+ALT+T'' = ''CTRL+ALT+T'' \<and>
   normalizeCombo ''ALT+CTRL+T'' = ''ALT+CTRL+T'' \<and>
   normalizeCombo ''CTRL+ALT+T'' \<noteq> normalizeCombo ''ALT+CTRL+T''"
  by (simp add: normalizeCombo_def ToUpper_def upper_byte_def)

section \<open>Two modifiers: the order of the candidate combo\<close>

lemmas ev_defs = HandleEvent_def update_pressed_def fire_def
  Press_def Release_def isModifier_def candidate_def comboParts_def keyName_def modifierName_def
  TrimPrefix_def index_bool_def index_last_def start_callback_def Let_def

lemma range_order_alt_first:
  "range_order [''KEY_LEFTCTRL'' \<mapsto> True, ''KEY_LEFTALT'' \<mapsto> True, ''KEY_T'' \<mapsto> True]
     [''KEY_LEFTALT'', ''KEY_T'', ''KEY_LEFTCTRL'']"
  by (auto simp: range_order_def)

text \<open>
  C1, the code at a run that breaks it. The README's binding \<open>CTRL+ALT+T\<close> is
  registered; left Ctrl, left Alt and T are pressed in this order; in the call for
  T the loop over \<open>pressed\<close> yields \<open>KEY_LEFTALT\<close>, \<open>KEY_T\<close>, \<open>KEY_LEFTCTRL\<close>, one
  of the orders of that map. The candidate combo is \<open>ALT+CTRL+T\<close>, the stored key is
  \<open>CTRL+ALT+T\<close>, and no callback is started although the binding is there.
\<close>

theorem registered_combo_missed:
  "normalizeCombo ''CTRL+ALT+T'' = ''CTRL+ALT+T'' \<and>
   range_order [''KEY_LEFTCTRL'' \<mapsto> True, ''KEY_LEFTALT'' \<mapsto> True, ''KEY_T'' \<mapsto> True]
     [''KEY_LEFTALT'', ''KEY_T'', ''KEY_LEFTCTRL''] \<and>
   candidate [''KEY_LEFTALT'', ''KEY_T'', ''KEY_LEFTCTRL''] ''KEY_T'' = ''ALT+CTRL+T'' \<and>
   event_loop (RegisterBinding NewManager ''CTRL+ALT+T'' cb)
     [([], [''KEY_LEFTCTRL''], \<lparr>Key = ''KEY_LEFTCTRL'', Type = Press\<rparr>),
      ([], [''KEY_LEFTCTRL'', ''KEY_LEFTALT''], \<lparr>Key = ''KEY_LEFTALT'', Type = Press\<rparr>),
      ([], [''KEY_LEFTALT'', ''KEY_T'', ''KEY_LEFTCTRL''], \<lparr>Key = ''KEY_T'', Type = Press\<rparr>)]
   = Inr (\<lparr>bindings = [''CTRL+ALT+T'' \<mapsto> cb],
           pressed = [''KEY_LEFTCTRL'' \<mapsto> True, ''KEY_LEFTALT'' \<mapsto> True, ''KEY_T'' \<mapsto> True],
           fired = Map.empty, suppressRepeats = False\<rparr>, [])"
  by (simp add: normalize_CAT range_order_alt_first RegisterBinding_def NewManager_def ev_defs)

text \<open>
  C4, the code at two runs that break it, both with suppression on and the binding
  \<open>CTRL+ALT+T\<close>. In the first, Ctrl, Alt, T, T are pressed and both calls for T see
  \<open>KEY_LEFTALT\<close> before \<open>KEY_LEFTCTRL\<close>: the callback is started zero times, not
  once. In the second, the first Press of T sees Ctrl first and starts the callback,
  the second Press is suppressed, T is released, and the next Press of T sees Alt
  first: the callback is not started again.
\<close>

theorem suppressed_combo_missed:
  "event_loop (SuppressRepeats (RegisterBinding NewManager ''CTRL+ALT+T'' (Func f)))
     [([], [''KEY_LEFTCTRL''], \<lparr>Key = ''KEY_LEFTCTRL'', Type = Press\<rparr>),
      ([], [''KEY_LEFTCTRL'', ''KEY_LEFTALT''], \<lparr>Key = ''KEY_LEFTALT'', Type = Press\<rparr>),
      ([], [''KEY_LEFTALT'', ''KEY_T'', ''KEY_LEFTCTRL''], \<lparr>Key = ''KEY_T'', Type = Press\<rparr>),
      ([], [''KEY_LEFTALT'', ''KEY_T'', ''KEY_LEFTCTRL''], \<lparr>Key = ''KEY_T'', Type = Press\<rparr>)]
   = Inr (\<lparr>bindings = [''CTRL+ALT+T'' \<mapsto> Func f],
           pressed = [''KEY_LEFTCTRL'' \<mapsto> True, ''KEY_LEFTALT'' \<mapsto> True, ''KEY_T'' \<mapsto> True],
           fired = [''ALT+CTRL+T'' \<mapsto> True], suppressRepeats = True\<rparr>, []) \<and>
   event_loop (SuppressRepeats (RegisterBinding NewManager ''CTRL+ALT+T'' (Func f)))
     [([], [''KEY_LEFTCTRL''], \<lparr>Key = ''KEY_LEFTCTRL'', Type = Press\<rparr>),
      ([], [''KEY_LEFTCTRL'', ''KEY_LEFTALT''], \<lparr>Key = ''KEY_LEFTALT'', Type = Press\<rparr>),
      ([], [''KEY_LEFTCTRL'', ''KEY_LEFTALT'', ''KEY_T''], \<lparr>Key = ''KEY_T'', Type = Press\<rparr>),
      ([], [''KEY_LEFTCTRL'', ''KEY_LEFTALT'', ''KEY_T''], \<lparr>Key = ''KEY_T'', Type = Press\<rparr>),
      ([''CTRL+ALT+T''], [], \<lparr>Key = ''KEY_T'', Type = Release\<rparr>),
      ([], [''KEY_LEFTALT'', ''KEY_T'', ''KEY_LEFTCTRL''], \<lparr>Key = ''KEY_T'', Type = Press\<rparr>)]
   = Inr (\<lparr>bindings = [''CTRL+ALT+T'' \<mapsto> Func f],
           pressed = [''KEY_LEFTCTRL'' \<mapsto> True, ''KEY_LEFTALT'' \<mapsto> True, ''KEY_T'' \<mapsto> True],
           fired = [''ALT+CTRL+T'' \<mapsto> True], suppressRepeats = True\<rparr>, [f])"
  by (simp add: normalize_CAT SuppressRepeats_def RegisterBinding_def NewManager_def ev_defs)

text \<open>When every call for T sees Ctrl before Alt, the run is the one the README
  promises: one callback for the two Presses, one more after the Release.\<close>

lemma suppressed_combo_ctrl_first:
  "event_loop (SuppressRepeats (RegisterBinding NewManager ''CTRL+ALT+T'' (Func f)))
     [([], [''KEY_LEFTCTRL''], \<lparr>Key = ''KEY_LEFTCTRL'', Type = Press\<rparr>),
      ([], [''KEY_LEFTCTRL'', ''KEY_LEFTALT''], \<lparr>Key = ''KEY_LEFTALT'', Type = Press\<rparr>),
      ([], [''KEY_LEFTCTRL'', ''KEY_LEFTALT'', ''KEY_T''], \<lparr>Key = ''KEY_T'', Type = Press\<rparr>),
      ([], [''KEY_LEFTCTRL'', ''KEY_LEFTALT'', ''KEY_T''], \<lparr>Key = ''KEY_T'', Type = Press\<rparr>),
      ([''CTRL+ALT+T''], [], \<lparr>Key = ''KEY_T'', Type = Release\<rparr>),
      ([], [''KEY_T'', ''KEY_LEFTCTRL'', ''KEY_LEFTALT''], \<lparr>Key = ''KEY_T'', Type = Press\<rparr>)]
   = Inr (\<lparr>bindings = [''CTRL+ALT+T'' \<mapsto> Func f],
           pressed = [''KEY_LEFTCTRL'' \<mapsto> True, ''KEY_LEFTALT'' \<mapsto> True, ''KEY_T'' \<mapsto> True],
           fired = [''CTRL+ALT+T'' \<mapsto> True], suppressRepeats = True\<rparr>, [f, f])"
  by (simp add: normalize_CAT SuppressRepeats_def RegisterBinding_def NewManager_def ev_defs)

end
